theory Spec2Isabelle
  imports
    Main
    "HOL-Library.Word"
    "HOL-Library.Signed_Division"
    "HOL-Library.Multiset"
begin

section \<open>Machine arithmetic of chunk\_distribution.go\<close>

text \<open>
  \<open>file.Size()\<close> and every counter of \<open>reportSizes\<close> are Go \<open>int64\<close>: 64-bit two's
  complement values whose \<open>+\<close>, \<open>-\<close> and \<open>*\<close> wrap around, whose comparisons are signed
  and whose \<open>/\<close> and \<open>%\<close> truncate towards zero.
\<close>

type_synonym int64 = "64 word"

definition OneKb :: int64 where
  "OneKb = 1024"

definition OneMb :: int64 where
  "OneMb = 1024 * 1024"

definition OneGb :: int64 where
  "OneGb = 1024 * 1024 * 1024"

definition go_div :: "int64 \<Rightarrow> int64 \<Rightarrow> int64" where
  "go_div a b = word_of_int (sint a sdiv sint b)"

definition go_mod :: "int64 \<Rightarrow> int64 \<Rightarrow> int64" where
  "go_mod a b = word_of_int (sint a smod sint b)"

subsection \<open>The float64 values of the program\<close>

text \<open>
  The program uses \<open>float64\<close> in three places: \<open>float64(size)\<close>, a division of that value
  by \<open>float64(OneMb)\<close> or \<open>float64(OneGb)\<close> (powers of two), \<open>math.Ceil\<close>, and the running
  sums \<open>largeGigabytes\<close> and \<open>smallGigabytes\<close>.

  \<open>float64(size)\<close> is the integer nearest to \<open>size\<close> that has a 53-bit significand, ties
  going to the even significand (IEEE 754 round-to-nearest-even): \<open>f64_round\<close>.
  Dividing a float64 by a power of two only changes its exponent, so it is exact here
  (the values are far from the subnormal and the overflow range). Every value of the two
  gigabyte sums is therefore an integer multiple of \<open>2^-30\<close>, and such a value \<open>v\<close> is
  represented by the integer \<open>v * 2^30\<close>; a float64 addition is the exact sum rounded to a
  53-bit significand again, which on this representation is \<open>f64_add\<close>.
\<close>

fun bit_len :: "nat \<Rightarrow> nat" where
  "bit_len n = (if n = 0 then 0 else Suc (bit_len (n div 2)))"

declare bit_len.simps [simp del]

definition round53 :: "nat \<Rightarrow> nat" where
  "round53 n =
     (if bit_len n \<le> 53 then n
      else
        let e = bit_len n - 53;
            q = n div 2 ^ e;
            r = n mod 2 ^ e;
            h = 2 ^ (e - 1)
        in if r < h \<or> (r = h \<and> even q) then q * 2 ^ e else (q + 1) * 2 ^ e)"

definition f64_round :: "int \<Rightarrow> int" where
  "f64_round k = sgn k * int (round53 (nat \<bar>k\<bar>))"

definition f64_add :: "int \<Rightarrow> int \<Rightarrow> int" where
  "f64_add x y = f64_round (x + y)"

text \<open>
  \<open>int64(math.Ceil(float64(size) / float64(OneMb)))\<close>: the quotient is exactly
  \<open>f64_round size / 2^20\<close>, its ceiling is an integer of magnitude at most \<open>2^43\<close>, which
  is a float64 and an int64 without loss.
\<close>

definition ceil_div :: "int \<Rightarrow> int \<Rightarrow> int" where
  "ceil_div a b = - ((- a) div b)"

definition fileChunksOf :: "int64 \<Rightarrow> int64" where
  "fileChunksOf fsize = word_of_int (ceil_div (f64_round (sint fsize)) (sint OneMb))"

section \<open>The histogram\<close>

text \<open>
  \<open>addToHistogram\<close> updates the map and, when the key is missing, first prints
  \<open>Missing key in histogram key\<close>. The printed keys are collected in a list that is passed
  along with the map.
\<close>

type_synonym hist = "int64 \<rightharpoonup> int64"

definition histKey :: "int64 \<Rightarrow> int64" where
  "histKey fsize = go_div fsize 100 * 100"

definition addToHistogram :: "hist \<times> int64 list \<Rightarrow> int64 \<Rightarrow> int64 \<Rightarrow> hist \<times> int64 list" where
  "addToHistogram hp fsize cnt =
     (let h = fst hp;
          printed = snd hp;
          key = histKey fsize
      in case h key of
           None \<Rightarrow> (h(key \<mapsto> 0 + cnt), printed @ [key])
         | Some v \<Rightarrow> (h(key \<mapsto> v + cnt), printed))"

definition initialHistogram :: hist where
  "initialHistogram =
     [0 \<mapsto> 0, 100 \<mapsto> 0, 200 \<mapsto> 0, 300 \<mapsto> 0, 400 \<mapsto> 0, 500 \<mapsto> 0,
      600 \<mapsto> 0, 700 \<mapsto> 0, 800 \<mapsto> 0, 900 \<mapsto> 0, 1000 \<mapsto> 0]"

section \<open>reportSizes\<close>

text \<open>
  The local variables of \<open>reportSizes\<close>. The two gigabyte sums are kept in units of
  \<open>2^-30\<close> GB (see above); \<open>missingKeys\<close> is what \<open>addToHistogram\<close> printed.
\<close>

record stats =
  gt :: int64
  lt :: int64
  totalChunks :: int64
  largeChunks :: int64
  smallChunks :: int64
  largeGigabytes :: int
  smallGigabytes :: int
  histogram :: hist
  missingKeys :: "int64 list"

definition initialStats :: stats where
  "initialStats =
     \<lparr>gt = 0, lt = 0, totalChunks = 0, largeChunks = 0, smallChunks = 0,
      largeGigabytes = 0, smallGigabytes = 0,
      histogram = initialHistogram, missingKeys = []\<rparr>"

text \<open>The body of the loop over the files, for one file of size \<open>size\<close>.\<close>

definition processFile :: "stats \<Rightarrow> int64 \<Rightarrow> stats" where
  "processFile s fsize =
     (if OneMb <s fsize then
        let fileChunks = fileChunksOf fsize;
            h1 = addToHistogram (histogram s, missingKeys s) 1024 (fileChunks - 1);
            h2 = addToHistogram h1 (go_div (go_mod fsize OneMb) OneKb) 1;
            h3 = addToHistogram h2 1 1
        in s\<lparr>gt := gt s + 1,
             largeGigabytes := f64_add (largeGigabytes s) (f64_round (sint fsize)),
             totalChunks := totalChunks s + fileChunks + 1,
             largeChunks := largeChunks s + fileChunks - 1,
             smallChunks := smallChunks s + 2,
             histogram := fst h3,
             missingKeys := snd h3\<rparr>
      else if fsize <s 3 * OneKb then
        let h1 = addToHistogram (histogram s, missingKeys s) (go_div fsize OneKb) 1
        in s\<lparr>lt := lt s + 1,
             smallGigabytes := f64_add (smallGigabytes s) (f64_round (sint fsize)),
             totalChunks := totalChunks s + 1,
             smallChunks := smallChunks s + 1,
             histogram := fst h1,
             missingKeys := snd h1\<rparr>
      else
        let h1 = addToHistogram (histogram s, missingKeys s) (go_div (go_div fsize OneKb) 3) 3;
            h2 = addToHistogram h1 1 1
        in s\<lparr>lt := lt s + 1,
             smallGigabytes := f64_add (smallGigabytes s) (f64_round (sint fsize)),
             totalChunks := totalChunks s + 4,
             smallChunks := smallChunks s + 4,
             histogram := fst h2,
             missingKeys := snd h2\<rparr>)"

definition reportSizes :: "int64 list \<Rightarrow> stats" where
  "reportSizes files = foldl processFile initialStats files"

subsection \<open>What one file records in the histogram\<close>

text \<open>
  The arguments \<open>(size in KB, count)\<close> of the calls of \<open>addToHistogram\<close> that the loop body
  makes for one file, in the order of the calls. \<open>processFile_recorded\<close> below shows that
  the loop body does exactly these calls.
\<close>

definition recorded :: "int64 \<Rightarrow> (int64 \<times> int64) list" where
  "recorded fsize =
     (if OneMb <s fsize then
        [(1024, fileChunksOf fsize - 1), (go_div (go_mod fsize OneMb) OneKb, 1), (1, 1)]
      else if fsize <s 3 * OneKb then
        [(go_div fsize OneKb, 1)]
      else
        [(go_div (go_div fsize OneKb) 3, 3), (1, 1)])"

definition addEntry :: "hist \<times> int64 list \<Rightarrow> int64 \<times> int64 \<Rightarrow> hist \<times> int64 list" where
  "addEntry hp e = addToHistogram hp (fst e) (snd e)"

subsection \<open>Vocabulary of the properties\<close>

text \<open>The count of a bucket, 0 for a key that is not in the map.\<close>

definition bucketCount :: "hist \<Rightarrow> int64 \<Rightarrow> int64" where
  "bucketCount h key = (case h key of None \<Rightarrow> 0 | Some v \<Rightarrow> v)"

text \<open>Adding \<open>n\<close> to the count of bucket \<open>key\<close>.\<close>

definition credit :: "hist \<Rightarrow> int64 \<Rightarrow> int64 \<Rightarrow> hist" where
  "credit h key n = h(key \<mapsto> bucketCount h key + n)"

text \<open>The sum of all per-bucket counts.\<close>

definition histTotal :: "hist \<Rightarrow> int64" where
  "histTotal h = (\<Sum>key \<in> dom h. bucketCount h key)"

text \<open>The eleven keys of the map literal in \<open>reportSizes\<close>.\<close>

definition predefinedKeys :: "int64 set" where
  "predefinedKeys = {0, 100, 200, 300, 400, 500, 600, 700, 800, 900, 1000}"

text \<open>
  Merging two partial results by addition: the int64 counters with \<open>+\<close>, the float64
  sums with the float64 addition, the histograms bucket by bucket.
\<close>

definition mergeHist :: "hist \<Rightarrow> hist \<Rightarrow> hist" where
  "mergeHist a b =
     (\<lambda>key. case a key of
              None \<Rightarrow> b key
            | Some x \<Rightarrow> (case b key of None \<Rightarrow> Some x | Some y \<Rightarrow> Some (x + y)))"

definition mergeStats :: "stats \<Rightarrow> stats \<Rightarrow> stats" where
  "mergeStats a b =
     \<lparr>gt = gt a + gt b,
      lt = lt a + lt b,
      totalChunks = totalChunks a + totalChunks b,
      largeChunks = largeChunks a + largeChunks b,
      smallChunks = smallChunks a + smallChunks b,
      largeGigabytes = f64_add (largeGigabytes a) (largeGigabytes b),
      smallGigabytes = f64_add (smallGigabytes a) (smallGigabytes b),
      histogram = mergeHist (histogram a) (histogram b),
      missingKeys = missingKeys a @ missingKeys b\<rparr>"

text \<open>The invariant of the three chunk counters.\<close>

definition chunksBalanced :: "stats \<Rightarrow> bool" where
  "chunksBalanced s = (totalChunks s = largeChunks s + smallChunks s)"

section \<open>walkDir and main\<close>

text \<open>
  The directory tree as \<open>walkDir\<close> sees it: an entry that is not a directory has a size;
  a directory has entries, or \<open>ioutil.ReadDir\<close> fails on it, in which case the error is
  dropped and the loop runs over no entries.
\<close>

datatype node = File int64 | Dir "node list" | Unreadable

fun walkDir :: "node \<Rightarrow> int64 list"
  and walkEntries :: "node list \<Rightarrow> int64 list" where
  "walkDir (Dir entries) = walkEntries entries"
| "walkDir (File fsize) = []"
| "walkDir Unreadable = []"
| "walkEntries [] = []"
| "walkEntries (File fsize # rest) = fsize # walkEntries rest"
| "walkEntries (d # rest) = walkDir d @ walkEntries rest"

text \<open>
  The number of \<open>ioutil.ReadDir\<close> calls of \<open>walkDir\<close>: one for each call of \<open>walkDir\<close>,
  that is one for the root and one for every directory below a readable directory.
\<close>

fun readDirCalls :: "node \<Rightarrow> nat"
  and readDirCallsIn :: "node list \<Rightarrow> nat" where
  "readDirCalls (Dir entries) = Suc (readDirCallsIn entries)"
| "readDirCalls (File fsize) = Suc 0"
| "readDirCalls Unreadable = Suc 0"
| "readDirCallsIn [] = 0"
| "readDirCallsIn (File fsize # rest) = readDirCallsIn rest"
| "readDirCallsIn (d # rest) = readDirCalls d + readDirCallsIn rest"

text \<open>
  What \<open>main\<close> writes to standard output, how many directories it reads, and how the
  process ends. \<open>main\<close> calls neither
  \<open>os.Exit\<close> nor \<open>panic\<close>: on both paths it returns, and a Go program whose \<open>main\<close>
  returns exits with status 0. The argument is the result of \<open>user.Current()\<close>: an error,
  or the user, of whom only the tree under \<open>HomeDir\<close> is used.
\<close>

datatype line = Text string | ErrorText string | Report nat stats

record outcome =
  stdout :: "line list"
  dirsRead :: nat
  exitStatus :: int

definition main :: "string + node \<Rightarrow> outcome" where
  "main current =
     (case current of
        Inl err \<Rightarrow>
          \<lparr>stdout = [Text ''chunk_distribution v0.1.0'', ErrorText err],
           dirsRead = 0, exitStatus = 0\<rparr>
      | Inr home \<Rightarrow>
          let files = walkDir home
          in \<lparr>stdout = [Text ''chunk_distribution v0.1.0'',
                         Text ''Gathering current user HomeDir stats'',
                         Report (length files) (reportSizes files)],
              dirsRead = readDirCalls home, exitStatus = 0\<rparr>)"

fun isReport :: "line \<Rightarrow> bool" where
  "isReport (Report n s) = True"
| "isReport (Text t) = False"
| "isReport (ErrorText e) = False"

definition printsReport :: "outcome \<Rightarrow> bool" where
  "printsReport r = list_ex isReport (stdout r)"

text \<open>The histogram accounts for every chunk counted so far.\<close>

definition histogramComplete :: "stats \<Rightarrow> bool" where
  "histogramComplete s \<longleftrightarrow>
     finite (dom (histogram s)) \<and> histTotal (histogram s) = totalChunks s"

section \<open>Facts about the machine arithmetic\<close>

lemma sint_OneKb: "sint OneKb = 1024" by (simp add: OneKb_def)
lemma sint_OneMb: "sint OneMb = 1048576" by (simp add: OneMb_def)

lemma sint64_range: "- 9223372036854775808 \<le> sint (x::int64) \<and> sint x < 9223372036854775808"
  using sint_ge [of x] sint_lt [of x] by simp

lemma sint_word_of_int_in_range:
  "- 9223372036854775808 \<le> k \<Longrightarrow> k < 9223372036854775808 \<Longrightarrow> sint (word_of_int k :: int64) = k"
  by (simp add: sint_sbintrunc' signed_take_bit_int_eq_self)

lemma sint_go_div_nonneg:
  assumes "0 \<le> sint a" "0 < sint b"
  shows "sint (go_div a b) = sint a div sint b"
proof -
  have eq: "sint a sdiv sint b = sint a div sint b"
    using assms by (simp add: signed_divide_int_def sgn_if)
  have "0 \<le> sint a div sint b" using assms by (simp add: pos_imp_zdiv_nonneg_iff)
  moreover have "sint a div sint b \<le> sint a" using assms
    by (cases "sint a = 0") (simp_all add: int_div_le_self)
  ultimately show ?thesis
    using sint64_range [of a] unfolding go_div_def eq
    by (intro sint_word_of_int_in_range) simp_all
qed

lemma sint_go_mod_nonneg:
  assumes "0 \<le> sint a" "0 < sint b"
  shows "sint (go_mod a b) = sint a mod sint b"
proof -
  have eq: "sint a smod sint b = sint a mod sint b"
    using assms by (simp add: signed_modulo_int_def sgn_if)
  have "0 \<le> sint a mod sint b" using assms by simp
  moreover have "sint a mod sint b \<le> sint a" using assms
    by (simp add: zmod_le_nonneg_dividend)
  ultimately show ?thesis
    using sint64_range [of a] unfolding go_mod_def eq
    by (intro sint_word_of_int_in_range) simp_all
qed

lemma sint_histKey_nonneg:
  assumes "0 \<le> sint kb"
  shows "sint (histKey kb) = sint kb div 100 * 100"
proof -
  have d: "sint (go_div kb 100) = sint kb div 100"
    using sint_go_div_nonneg [of kb 100] assms by simp
  have "0 \<le> sint kb div 100 * 100" using assms by simp
  moreover have "sint kb div 100 * 100 \<le> sint kb" by simp
  ultimately show ?thesis
    using sint64_range [of kb] unfolding histKey_def
    by (simp add: sint_word_ariths d signed_take_bit_int_eq_self)
qed

lemma bit_len_le_iff: "bit_len n \<le> k \<longleftrightarrow> n < 2 ^ k"
proof (induction k arbitrary: n)
  case 0
  show ?case by (subst bit_len.simps) simp
next
  case (Suc k)
  have "bit_len n \<le> Suc k \<longleftrightarrow> n = 0 \<or> bit_len (n div 2) \<le> k"
    by (subst bit_len.simps) simp
  also have "\<dots> \<longleftrightarrow> n = 0 \<or> n div 2 < 2 ^ k" by (simp add: Suc.IH)
  also have "\<dots> \<longleftrightarrow> n < 2 ^ Suc k" by auto
  finally show ?case .
qed

lemma round53_small: "n \<le> 2 ^ 53 \<Longrightarrow> round53 n = n"
proof (cases "n < 2 ^ 53")
  case True
  then show ?thesis by (simp add: round53_def bit_len_le_iff)
next
  case False
  assume "n \<le> 2 ^ 53"
  with False have n: "n = 2 ^ 53" by simp
  have b: "bit_len n = 54"
  proof -
    have "bit_len n \<le> 54" by (simp add: bit_len_le_iff n)
    moreover have "\<not> bit_len n \<le> 53" by (simp add: bit_len_le_iff n)
    ultimately show ?thesis by simp
  qed
  show ?thesis by (simp add: round53_def b) (simp add: n)
qed

lemma round53_multiple:
  assumes "2 ^ 10 dvd n" "n < 2 ^ 63"
  shows "round53 n = n"
proof (cases "bit_len n \<le> 53")
  case True
  then show ?thesis by (simp add: round53_def)
next
  case False
  define e where "e = bit_len n - 53"
  have "bit_len n \<le> 63" using assms(2) by (simp add: bit_len_le_iff)
  with False have e: "0 < e" "e \<le> 10" by (simp_all add: e_def)
  from e(2) have "(2::nat) ^ e dvd 2 ^ 10" by (rule le_imp_power_dvd)
  then have d: "2 ^ e dvd n" using assms(1) by (rule dvd_trans)
  then have r: "n mod 2 ^ e = 0" by simp
  have h: "(0::nat) < 2 ^ (e - 1)" by simp
  have q: "n div 2 ^ e * 2 ^ e = n" using d by simp
  show ?thesis using False h q r
    unfolding round53_def Let_def e_def [symmetric] by simp
qed

lemma f64_round_exact: "\<bar>k\<bar> \<le> 2 ^ 53 \<Longrightarrow> f64_round k = k"
proof -
  assume a: "\<bar>k\<bar> \<le> 2 ^ 53"
  then have "nat \<bar>k\<bar> \<le> 2 ^ 53" by (simp add: nat_le_iff)
  then have "round53 (nat \<bar>k\<bar>) = nat \<bar>k\<bar>" by (rule round53_small)
  then show ?thesis by (simp add: f64_round_def sgn_if)
qed

lemma f64_round_multiple:
  assumes "0 \<le> k" "k < 2 ^ 63" "2 ^ 10 dvd k"
  shows "f64_round k = k"
proof -
  have "(2::nat) ^ 10 dvd nat k" using assms(1,3)
    by (metis int_dvd_int_iff nat_0_le of_nat_numeral of_nat_power)
  moreover have "nat k < 2 ^ 63" using assms(1,2) by (simp add: nat_less_iff)
  ultimately have "round53 (nat k) = nat k" by (rule round53_multiple)
  then show ?thesis using assms(1) by (simp add: f64_round_def sgn_if)
qed

text \<open>
  \<open>round53\<close> is rounding to nearest: above 53 bits the result is a multiple of the unit
  in the last place \<open>2^e\<close>, and it is at most half a unit away from the argument.
\<close>

lemma round53_nearest:
  assumes "53 < bit_len n"
  defines "e \<equiv> bit_len n - 53"
  shows "2 ^ e dvd round53 n"
    and "2 * \<bar>int (round53 n) - int n\<bar> \<le> 2 ^ e"
proof -
  define q where "q = n div 2 ^ e"
  define r where "r = n mod 2 ^ e"
  define h :: nat where "h = 2 ^ (e - 1)"
  have e: "0 < e" using assms by simp
  then have hh: "2 * h = 2 ^ e" by (cases e) (simp_all add: h_def)
  have n: "n = q * 2 ^ e + r" unfolding q_def r_def by (rule div_mult_mod_eq [symmetric])
  have "int n = int (q * 2 ^ e + r)" by (subst n) (rule refl)
  then have ni: "int n = int q * 2 ^ e + int r" by simp
  have r: "r < 2 ^ e" by (simp add: r_def)
  have R: "round53 n = (if r < h \<or> (r = h \<and> even q) then q * 2 ^ e else (q + 1) * 2 ^ e)"
    using assms(1) by (simp add: round53_def Let_def e_def q_def r_def h_def)
  show "2 ^ e dvd round53 n" by (simp add: R)
  show "2 * \<bar>int (round53 n) - int n\<bar> \<le> 2 ^ e"
  proof (cases "r < h \<or> (r = h \<and> even q)")
    case True
    then have "round53 n = q * 2 ^ e" by (simp add: R)
    then have "int (round53 n) = int q * 2 ^ e" by simp
    then have "int (round53 n) - int n = - int r" by (simp add: ni)
    moreover have "2 * int r \<le> 2 ^ e"
    proof -
      have "2 * r \<le> 2 * h" using True by auto
      then have "2 * r \<le> 2 ^ e" by (simp only: hh)
      then have "int (2 * r) \<le> int (2 ^ e)" by (simp only: of_nat_le_iff)
      then show ?thesis by simp
    qed
    ultimately show ?thesis by simp
  next
    case False
    then have "h \<le> r" by auto
    then have "2 * h \<le> 2 * r" by simp
    then have "2 ^ e \<le> 2 * r" by (simp only: hh)
    then have a: "(2::int) ^ e \<le> 2 * int r"
      by (metis of_nat_le_iff of_nat_mult of_nat_numeral of_nat_power)
    have b: "int r < 2 ^ e" using r by (metis of_nat_less_iff of_nat_numeral of_nat_power)
    have "round53 n = (q + 1) * 2 ^ e" using False by (simp add: R)
    then have "int (round53 n) = (int q + 1) * 2 ^ e" by (simp add: algebra_simps)
    then have "int (round53 n) - int n = 2 ^ e - int r" by (simp add: ni algebra_simps)
    then show ?thesis using a b by simp
  qed
qed

section \<open>Facts about the histogram and the loop body\<close>

lemma addToHistogram_eq:
  "addToHistogram (h, p) kb c =
     (credit h (histKey kb) c, if histKey kb \<in> dom h then p else p @ [histKey kb])"
  by (auto simp: addToHistogram_def credit_def bucketCount_def Let_def split: option.split)

lemma addEntry_eq:
  "addEntry (h, p) (kb, c) =
     (credit h (histKey kb) c, if histKey kb \<in> dom h then p else p @ [histKey kb])"
  by (simp add: addEntry_def addToHistogram_eq)

lemma dom_credit: "dom (credit h key n) = insert key (dom h)"
  by (simp add: credit_def)

lemma processFile_recorded:
  "(histogram (processFile s f), missingKeys (processFile s f)) =
     foldl addEntry (histogram s, missingKeys s) (recorded f)"
  by (simp add: processFile_def recorded_def addEntry_def Let_def)

lemma totalChunks_processFile:
  "totalChunks (processFile s f) =
     totalChunks s + (if OneMb <s f then fileChunksOf f + 1 else if f <s 3 * OneKb then 1 else 4)"
  by (simp add: processFile_def Let_def)

lemma largeChunks_processFile:
  "largeChunks (processFile s f) =
     largeChunks s + (if OneMb <s f then fileChunksOf f - 1 else 0)"
  by (simp add: processFile_def Let_def)

lemma smallChunks_processFile:
  "smallChunks (processFile s f) =
     smallChunks s + (if OneMb <s f then 2 else if f <s 3 * OneKb then 1 else 4)"
  by (simp add: processFile_def Let_def)

lemma gt_processFile:
  "gt (processFile s f) = gt s + (if OneMb <s f then 1 else 0)"
  by (simp add: processFile_def Let_def)

lemma lt_processFile:
  "lt (processFile s f) = lt s + (if OneMb <s f then 0 else 1)"
  by (simp add: processFile_def Let_def)

lemma largeGigabytes_processFile:
  "largeGigabytes (processFile s f) =
     (if OneMb <s f then f64_add (largeGigabytes s) (f64_round (sint f)) else largeGigabytes s)"
  by (simp add: processFile_def Let_def)

lemma smallGigabytes_processFile:
  "smallGigabytes (processFile s f) =
     (if OneMb <s f then smallGigabytes s else f64_add (smallGigabytes s) (f64_round (sint f)))"
  by (simp add: processFile_def Let_def)

lemma sint_eqI: "sint a = sint b \<Longrightarrow> a = b" for a b :: int64
  by (rule signed_word_eqI [where ?'a = int])

lemma histKey_eqI:
  assumes "0 \<le> sint kb" "sint kb div 100 * 100 = sint key"
  shows "histKey kb = key"
  using assms by (intro sint_eqI) (simp add: sint_histKey_nonneg)

lemma histKey_datamap: "histKey 1 = 0"
  by (rule histKey_eqI) simp_all

lemma histKey_full: "histKey 1024 = 1000"
  by (rule histKey_eqI) simp_all

lemma histKey_zero: "histKey 0 = 0"
  by (rule histKey_eqI) simp_all

lemma sless_iff: "a <s b \<longleftrightarrow> sint a < sint b"
  by (simp add: word_sless_alt)

lemma sle_iff: "a \<le>s b \<longleftrightarrow> sint a \<le> sint b"
  by (simp add: word_sle_eq)

lemma sint_3Kb: "sint (3 * OneKb) = 3072"
  by (simp add: OneKb_def)

lemma histogram_processFile:
  "histogram (processFile s f) = fst (foldl addEntry (histogram s, missingKeys s) (recorded f))"
  by (simp flip: processFile_recorded)


lemma ceil_div_dvd: "b dvd a \<Longrightarrow> ceil_div a b = a div b"
proof -
  assume "b dvd a"
  then obtain k where k: "a = b * k" by (rule dvdE)
  show ?thesis
  proof (cases "b = 0")
    case True
    then show ?thesis by (simp add: ceil_div_def k)
  next
    case False
    then show ?thesis
      using nonzero_mult_div_cancel_left [OF False, of "- k"]
      by (simp add: ceil_div_def k)
  qed
qed

lemma fileChunksOf_exact:
  assumes "0 \<le> sint f" "sint f \<le> 2 ^ 53"
  shows "fileChunksOf f = word_of_int (ceil_div (sint f) 1048576)"
  using assms by (simp add: fileChunksOf_def sint_OneMb f64_round_exact)

lemma fileChunksOf_multiple:
  assumes "OneMb <s f" "go_mod f OneMb = 0"
  shows "fileChunksOf f = go_div f OneMb"
proof -
  have pos: "0 \<le> sint f" using assms(1) by (simp add: sless_iff sint_OneMb)
  have "sint (go_mod f OneMb) = sint f mod 1048576"
    using sint_go_mod_nonneg [OF pos, of OneMb] by (simp add: sint_OneMb)
  then have m: "sint f mod 1048576 = 0" by (simp add: assms(2))
  then have d: "1048576 dvd sint f" by presburger
  have "(2::int) ^ 10 dvd 1048576" by simp
  then have "(2::int) ^ 10 dvd sint f" using d by (rule dvd_trans)
  moreover have "sint f < 2 ^ 63" using sint64_range [of f] by simp
  ultimately have r: "f64_round (sint f) = sint f" using pos by (intro f64_round_multiple)
  have "sint f sdiv 1048576 = sint f div 1048576"
    using pos by (simp add: signed_divide_int_def sgn_if)
  then show ?thesis
    by (simp add: fileChunksOf_def go_div_def sint_OneMb r ceil_div_dvd d)
qed

lemma tiny_key:
  assumes "0 \<le>s f" "f <s 3 * OneKb"
  shows "histKey (go_div f OneKb) = 0"
proof -
  have pos: "0 \<le> sint f" and up: "sint f < 3072"
    using assms by (simp_all add: sle_iff sless_iff sint_3Kb)
  have d: "sint (go_div f OneKb) = sint f div 1024"
    using sint_go_div_nonneg [OF pos, of OneKb] by (simp add: sint_OneKb)
  have "sint f div 1024 < 100" using up by simp
  then have "sint f div 1024 div 100 = 0" using pos by simp
  then show ?thesis using pos by (intro histKey_eqI) (simp_all add: d)
qed

lemma thirds_commute:
  assumes "0 \<le> sint f"
  shows "go_div (go_div f OneKb) 3 = go_div (go_div f 3) OneKb"
    and "sint (go_div (go_div f 3) OneKb) = sint f div 3 div 1024"
proof -
  have a: "sint (go_div f OneKb) = sint f div 1024"
    using sint_go_div_nonneg [OF assms, of OneKb] by (simp add: sint_OneKb)
  have b: "sint (go_div f 3) = sint f div 3"
    using sint_go_div_nonneg [OF assms, of 3] by simp
  have a3: "sint (go_div (go_div f OneKb) 3) = sint f div 1024 div 3"
    using sint_go_div_nonneg [of "go_div f OneKb" 3] assms by (simp add: a)
  show b1: "sint (go_div (go_div f 3) OneKb) = sint f div 3 div 1024"
    using sint_go_div_nonneg [of "go_div f 3" OneKb] assms by (simp add: b sint_OneKb)
  have "sint f div 1024 div 3 = sint f div 3 div 1024"
    by (simp add: div_mult2_eq [symmetric])
  then show "go_div (go_div f OneKb) 3 = go_div (go_div f 3) OneKb"
    by (intro sint_eqI) (simp add: a3 b1)
qed

section \<open>Files smaller than 3 KB\<close>

lemma recorded_tiny:
  assumes "0 \<le>s f" "f <s 3 * OneKb"
  shows "recorded f = [(go_div f OneKb, 1)]"
proof -
  have "\<not> OneMb <s f" using assms(2) by (simp add: sless_iff sint_OneMb sint_3Kb)
  then show ?thesis using assms(2) by (simp add: recorded_def)
qed

text \<open>
  Claim C1, as the code has it: a file of \<open>0 \<le> size < 3 KB\<close> adds exactly one chunk, a
  small one (the datamap, which holds the content itself): \<open>totalChunks\<close> and
  \<open>smallChunks\<close> each grow by 1, \<open>largeChunks\<close> is unchanged, and the only histogram
  entry is one count at \<open>size / OneKb\<close>, which is bucket 0.
\<close>

theorem tiny_file_one_chunk:
  assumes "0 \<le>s f" "f <s 3 * OneKb"
  shows "totalChunks (processFile s f) = totalChunks s + 1
       \<and> smallChunks (processFile s f) = smallChunks s + 1
       \<and> largeChunks (processFile s f) = largeChunks s
       \<and> recorded f = [(go_div f OneKb, 1)]
       \<and> histKey (go_div f OneKb) = 0
       \<and> histogram (processFile s f) = credit (histogram s) 0 1"
proof -
  have big: "\<not> OneMb <s f" using assms(2) by (simp add: sless_iff sint_OneMb sint_3Kb)
  have r: "recorded f = [(go_div f OneKb, 1)]" using assms by (rule recorded_tiny)
  have k: "histKey (go_div f OneKb) = 0" using assms by (rule tiny_key)
  have t: "totalChunks (processFile s f) = totalChunks s + 1"
    using big assms(2) by (simp add: totalChunks_processFile)
  have sm: "smallChunks (processFile s f) = smallChunks s + 1"
    using big assms(2) by (simp add: smallChunks_processFile)
  have l: "largeChunks (processFile s f) = largeChunks s"
    using big by (simp add: largeChunks_processFile)
  have h: "histogram (processFile s f) = credit (histogram s) 0 1"
    by (simp add: histogram_processFile r addEntry_eq k)
  from t sm l r k h show ?thesis by simp
qed

theorem tiny_file_one_chunk_witness:
  "0 \<le>s (500::int64) \<and> 500 <s 3 * OneKb
   \<and> totalChunks (processFile initialStats 500) = 1
   \<and> smallChunks (processFile initialStats 500) = 1
   \<and> histogram (processFile initialStats 500) 0 = Some 1"
proof -
  have h1: "0 \<le>s (500::int64)" by (simp add: sle_iff)
  have h2: "(500::int64) <s 3 * OneKb" by (simp add: OneKb_def)
  show ?thesis
    using h1 h2 tiny_file_one_chunk [OF h1 h2, of initialStats]
    by (simp add: initialStats_def initialHistogram_def credit_def bucketCount_def)
qed

text \<open>
  Claim C1 as stated (two chunks for such a file) fails for a file of 500 bytes.
\<close>

theorem tiny_file_two_chunks_counterexample:
  "\<not> (totalChunks (processFile initialStats 500) = totalChunks initialStats + 2
      \<and> smallChunks (processFile initialStats 500) = smallChunks initialStats + 2)"
  by (simp add: totalChunks_processFile OneKb_def OneMb_def initialStats_def)

section \<open>Files from 3 KB to 1 MB\<close>

text \<open>
  Claim C3: a file of \<open>3 KB \<le> size \<le> 1 MB\<close> (1 MB included) adds exactly 4 chunks, all
  small: 3 data chunks recorded at \<open>(size / 3) / 1 KB\<close> (integer divisions; the code's
  \<open>size / OneKb / 3\<close> is the same number), so in the bucket with the key
  \<open>((size / 3) / 1 KB) / 100 * 100\<close>, and one datamap recorded at size 1, which is bucket 0.
\<close>

theorem mid_file_four_chunks:
  assumes "3 * OneKb \<le>s f" "f \<le>s OneMb"
  shows "totalChunks (processFile s f) = totalChunks s + 4
       \<and> smallChunks (processFile s f) = smallChunks s + 4
       \<and> largeChunks (processFile s f) = largeChunks s
       \<and> recorded f = [(go_div (go_div f 3) OneKb, 3), (1, 1)]
       \<and> sint (go_div (go_div f 3) OneKb) = sint f div 3 div 1024
       \<and> sint (histKey (go_div (go_div f 3) OneKb)) = sint f div 3 div 1024 div 100 * 100
       \<and> histogram (processFile s f) =
           credit (credit (histogram s) (histKey (go_div (go_div f 3) OneKb)) 3) 0 1"
proof -
  have lo: "3072 \<le> sint f" and hi: "sint f \<le> 1048576"
    using assms by (simp_all add: sle_iff sint_3Kb sint_OneMb)
  then have pos: "0 \<le> sint f" by simp
  have big: "\<not> OneMb <s f" using hi by (simp add: sless_iff sint_OneMb)
  have tiny: "\<not> f <s 3 * OneKb" using lo by (simp add: sless_iff sint_3Kb)
  have c: "go_div (go_div f OneKb) 3 = go_div (go_div f 3) OneKb"
    using pos by (rule thirds_commute)
  have v: "sint (go_div (go_div f 3) OneKb) = sint f div 3 div 1024"
    using pos by (rule thirds_commute)
  have r: "recorded f = [(go_div (go_div f 3) OneKb, 3), (1, 1)]"
    using big tiny by (simp add: recorded_def c)
  have t: "totalChunks (processFile s f) = totalChunks s + 4"
    using big tiny by (simp add: totalChunks_processFile)
  have sm: "smallChunks (processFile s f) = smallChunks s + 4"
    using big tiny by (simp add: smallChunks_processFile)
  have l: "largeChunks (processFile s f) = largeChunks s"
    using big by (simp add: largeChunks_processFile)
  have h: "histogram (processFile s f) =
           credit (credit (histogram s) (histKey (go_div (go_div f 3) OneKb)) 3) 0 1"
    by (simp add: histogram_processFile r addEntry_eq histKey_datamap)
  have "0 \<le> sint (go_div (go_div f 3) OneKb)" using pos by (simp add: v)
  then have k: "sint (histKey (go_div (go_div f 3) OneKb)) = sint f div 3 div 1024 div 100 * 100"
    by (simp add: sint_histKey_nonneg v)
  show ?thesis
    by (intro conjI) (fact t sm l r v k h)+
qed

theorem mid_file_four_chunks_witness:
  "3 * OneKb \<le>s (3072::int64) \<and> 3072 \<le>s OneMb
   \<and> totalChunks (processFile initialStats 3072) = 4
   \<and> smallChunks (processFile initialStats 3072) = 4
   \<and> sint (go_div (go_div 3072 3) OneKb) = 1
   \<and> histogram (processFile initialStats 3072) 0 = Some 4"
proof -
  have h1: "3 * OneKb \<le>s (3072::int64)" by (simp add: OneKb_def)
  have h2: "(3072::int64) \<le>s OneMb" by (simp add: OneMb_def)
  have v: "sint (go_div (go_div 3072 3) OneKb) = 1"
    using thirds_commute(2) [of 3072] by simp
  then have k: "histKey (go_div (go_div 3072 3) OneKb) = 0"
    by (intro histKey_eqI) simp_all
  show ?thesis
    using h1 h2 v mid_file_four_chunks [OF h1 h2, of initialStats]
    by (simp add: k initialStats_def initialHistogram_def credit_def bucketCount_def)
qed

section \<open>Files larger than 1 MB\<close>

lemma remainder_kb:
  assumes "OneMb <s f"
  shows "sint (go_div (go_mod f OneMb) OneKb) = sint f mod 1048576 div 1024"
proof -
  have pos: "0 \<le> sint f" using assms by (simp add: sless_iff sint_OneMb)
  have m: "sint (go_mod f OneMb) = sint f mod 1048576"
    using sint_go_mod_nonneg [OF pos, of OneMb] by (simp add: sint_OneMb)
  show ?thesis
    using sint_go_div_nonneg [of "go_mod f OneMb" OneKb] by (simp add: m sint_OneKb)
qed

text \<open>
  Up to \<open>2^53\<close> bytes \<open>float64(size)\<close> is exact, and the loop body counts
  \<open>ceil(size / 1 MB)\<close> data chunks: that many plus 1 in total, that many minus 1 large,
  2 small.
\<close>

lemma large_file_chunks_exact:
  assumes "OneMb <s f" "sint f \<le> 2 ^ 53"
  shows "totalChunks (processFile s f) =
           totalChunks s + word_of_int (ceil_div (sint f) 1048576) + 1"
    and "largeChunks (processFile s f) =
           largeChunks s + word_of_int (ceil_div (sint f) 1048576) - 1"
    and "smallChunks (processFile s f) = smallChunks s + 2"
proof -
  have pos: "0 \<le> sint f" using assms(1) by (simp add: sless_iff sint_OneMb)
  have c: "fileChunksOf f = word_of_int (ceil_div (sint f) 1048576)"
    using pos assms(2) by (rule fileChunksOf_exact)
  show "totalChunks (processFile s f) =
           totalChunks s + word_of_int (ceil_div (sint f) 1048576) + 1"
    using assms(1) by (simp add: totalChunks_processFile c)
  show "largeChunks (processFile s f) =
           largeChunks s + word_of_int (ceil_div (sint f) 1048576) - 1"
    using assms(1) by (simp add: largeChunks_processFile c)
  show "smallChunks (processFile s f) = smallChunks s + 2"
    using assms(1) by (simp add: smallChunks_processFile)
qed

lemma bit_len_eqI: "2 ^ k \<le> n \<Longrightarrow> n < 2 ^ Suc k \<Longrightarrow> bit_len n = Suc k"
  using bit_len_le_iff [of n "Suc k"] bit_len_le_iff [of n k] by simp

text \<open>Rounding a number of 54 bits: one bit is dropped, a dropped 1 is a tie.\<close>

lemma round53_54_bits:
  assumes "2 ^ 53 \<le> n" "n < 2 ^ 54"
  shows "round53 n = (if even n \<or> even (n div 2) then n div 2 * 2 else (n div 2 + 1) * 2)"
proof -
  have b: "bit_len n = 54" using bit_len_eqI [of 53 n] assms by simp
  have "n mod 2 < 1 \<longleftrightarrow> even n" by presburger
  moreover have "n mod 2 = 1 \<longleftrightarrow> odd n" by presburger
  ultimately show ?thesis by (auto simp: round53_def b Let_def)
qed

lemma round53_2p53_plus_1: "round53 9007199254740993 = 9007199254740992"
  by (subst round53_54_bits) simp_all

lemma fileChunksOf_beyond_2p53: "fileChunksOf 9007199254740993 = 8589934592"
  by (simp add: fileChunksOf_def f64_round_def round53_2p53_plus_1 ceil_div_def OneMb_def)

text \<open>
  Claim C2 at a file of \<open>2^53 + 1\<close> bytes: \<open>ceil(size / 1 MB)\<close> is 8589934593, so the claim
  has the total grow by 8589934594 and the large chunks by 8589934592; the loop body adds
  one less to each, because \<open>float64(size)\<close> is \<open>2^53\<close>.
\<close>

theorem large_file_beyond_2p53:
  "totalChunks (processFile s 9007199254740993) = totalChunks s + 8589934593
   \<and> largeChunks (processFile s 9007199254740993) = largeChunks s + 8589934591
   \<and> smallChunks (processFile s 9007199254740993) = smallChunks s + 2
   \<and> ceil_div 9007199254740993 1048576 + 1 = 8589934594
   \<and> ceil_div 9007199254740993 1048576 - 1 = 8589934592"
proof -
  have big: "OneMb <s (9007199254740993::int64)" by (simp add: OneMb_def)
  have t: "totalChunks (processFile s 9007199254740993) = totalChunks s + 8589934593"
    using big by (simp add: totalChunks_processFile fileChunksOf_beyond_2p53)
  have l: "largeChunks (processFile s 9007199254740993) = largeChunks s + 8589934591"
    using big by (simp add: largeChunks_processFile fileChunksOf_beyond_2p53)
  have sm: "smallChunks (processFile s 9007199254740993) = smallChunks s + 2"
    using big by (simp add: smallChunks_processFile)
  have c1: "ceil_div 9007199254740993 1048576 + 1 = 8589934594"
    by (simp add: ceil_div_def)
  have c2: "ceil_div 9007199254740993 1048576 - 1 = 8589934592"
    by (simp add: ceil_div_def)
  show ?thesis
    by (intro conjI) (fact t l sm c1 c2)+
qed

text \<open>
  Claim C6: for a file whose size is a multiple of 1 MB and larger than 1 MB, the loop
  body still counts a last chunk among the small ones and records it with size
  \<open>(size % OneMb) / OneKb = 0\<close>, in bucket 0: with \<open>n = size / 1 MB\<close> it adds \<open>n + 1\<close>
  chunks, \<open>n - 1\<close> large and 2 small, \<open>n - 1\<close> counts to bucket 1000 and 2 counts to
  bucket 0. A file of 2097152 bytes alone gives 3 chunks, 1 large and 2 small.
\<close>

theorem exact_multiple_zero_remainder:
  "(OneMb <s f \<longrightarrow> go_mod f OneMb = 0 \<longrightarrow>
      recorded f = [(1024, go_div f OneMb - 1), (0, 1), (1, 1)]
      \<and> sint (go_div f OneMb) = sint f div 1048576
      \<and> totalChunks (processFile s f) = totalChunks s + go_div f OneMb + 1
      \<and> largeChunks (processFile s f) = largeChunks s + go_div f OneMb - 1
      \<and> smallChunks (processFile s f) = smallChunks s + 2
      \<and> histogram (processFile s f) =
          credit (credit (credit (histogram s) 1000 (go_div f OneMb - 1)) 0 1) 0 1)
   \<and> totalChunks (reportSizes [2097152]) = 3
   \<and> largeChunks (reportSizes [2097152]) = 1
   \<and> smallChunks (reportSizes [2097152]) = 2
   \<and> histogram (reportSizes [2097152]) 0 = Some 2
   \<and> histogram (reportSizes [2097152]) 1000 = Some 1"
proof -
  have general: "recorded f = [(1024, go_div f OneMb - 1), (0, 1), (1, 1)]
      \<and> sint (go_div f OneMb) = sint f div 1048576
      \<and> totalChunks (processFile s f) = totalChunks s + go_div f OneMb + 1
      \<and> largeChunks (processFile s f) = largeChunks s + go_div f OneMb - 1
      \<and> smallChunks (processFile s f) = smallChunks s + 2
      \<and> histogram (processFile s f) =
          credit (credit (credit (histogram s) 1000 (go_div f OneMb - 1)) 0 1) 0 1"
    if big: "OneMb <s f" and m: "go_mod f OneMb = 0" for f s
  proof -
    have pos: "0 \<le> sint f" using big by (simp add: sless_iff sint_OneMb)
    have c: "fileChunksOf f = go_div f OneMb" using big m by (rule fileChunksOf_multiple)
    have z: "go_div (go_mod f OneMb) OneKb = 0"
      using remainder_kb [OF big] sint_go_mod_nonneg [OF pos, of OneMb]
      by (intro sint_eqI) (simp add: m sint_OneMb)
    have r: "recorded f = [(1024, go_div f OneMb - 1), (0, 1), (1, 1)]"
      using big by (simp add: recorded_def c z)
    have d: "sint (go_div f OneMb) = sint f div 1048576"
      using sint_go_div_nonneg [OF pos, of OneMb] by (simp add: sint_OneMb)
    have t: "totalChunks (processFile s f) = totalChunks s + go_div f OneMb + 1"
      using big by (simp add: totalChunks_processFile c)
    have l: "largeChunks (processFile s f) = largeChunks s + go_div f OneMb - 1"
      using big by (simp add: largeChunks_processFile c)
    have sm: "smallChunks (processFile s f) = smallChunks s + 2"
      using big by (simp add: smallChunks_processFile)
    have h: "histogram (processFile s f) =
          credit (credit (credit (histogram s) 1000 (go_div f OneMb - 1)) 0 1) 0 1"
      by (simp add: histogram_processFile r addEntry_eq histKey_full histKey_zero
          histKey_datamap)
    from r d t l sm h show ?thesis by simp
  qed
  have big2: "OneMb <s (2097152::int64)" by (simp add: OneMb_def)
  have m2: "go_mod 2097152 OneMb = 0" by (simp add: go_mod_def OneMb_def signed_modulo_int_def)
  have d2: "go_div 2097152 OneMb = 2"
    by (simp add: go_div_def OneMb_def signed_divide_int_def)
  note g2 = general [OF big2 m2, of initialStats]
  have t2: "totalChunks (reportSizes [2097152]) = 3"
    using g2 by (simp add: reportSizes_def d2 initialStats_def)
  have l2: "largeChunks (reportSizes [2097152]) = 1"
    using g2 by (simp add: reportSizes_def d2 initialStats_def)
  have s2: "smallChunks (reportSizes [2097152]) = 2"
    using g2 by (simp add: reportSizes_def d2 initialStats_def)
  have h2: "histogram (reportSizes [2097152]) =
      credit (credit (credit initialHistogram 1000 1) 0 1) 0 1"
    using g2 by (simp add: reportSizes_def d2 initialStats_def)
  have b0: "histogram (reportSizes [2097152]) 0 = Some 2"
    by (simp add: h2 credit_def bucketCount_def initialHistogram_def)
  have b1000: "histogram (reportSizes [2097152]) 1000 = Some 1"
    by (simp add: h2 credit_def bucketCount_def initialHistogram_def)
  have g: "OneMb <s f \<longrightarrow> go_mod f OneMb = 0 \<longrightarrow>
      recorded f = [(1024, go_div f OneMb - 1), (0, 1), (1, 1)]
      \<and> sint (go_div f OneMb) = sint f div 1048576
      \<and> totalChunks (processFile s f) = totalChunks s + go_div f OneMb + 1
      \<and> largeChunks (processFile s f) = largeChunks s + go_div f OneMb - 1
      \<and> smallChunks (processFile s f) = smallChunks s + 2
      \<and> histogram (processFile s f) =
          credit (credit (credit (histogram s) 1000 (go_div f OneMb - 1)) 0 1) 0 1"
    by (intro impI) (rule general)
  show ?thesis
    by (intro conjI) (fact g t2 l2 s2 b0 b1000)+
qed

theorem exact_multiple_zero_remainder_witness:
  "OneMb <s (3145728::int64) \<and> go_mod 3145728 OneMb = 0
   \<and> recorded 3145728 = [(1024, 2), (0, 1), (1, 1)]
   \<and> totalChunks (processFile initialStats 3145728) = 4
   \<and> largeChunks (processFile initialStats 3145728) = 2
   \<and> smallChunks (processFile initialStats 3145728) = 2"
proof -
  have big: "OneMb <s (3145728::int64)" by (simp add: OneMb_def)
  have m: "go_mod 3145728 OneMb = 0" by (simp add: go_mod_def OneMb_def signed_modulo_int_def)
  have d: "go_div 3145728 OneMb = 3"
    by (simp add: go_div_def OneMb_def signed_divide_int_def)
  note inst = exact_multiple_zero_remainder [of 3145728 initialStats,
      THEN conjunct1, rule_format, OF big m]
  have r: "recorded 3145728 = [(1024, 2), (0, 1), (1, 1)]"
    using inst [THEN conjunct1] by (simp add: d)
  have t: "totalChunks (processFile initialStats 3145728) = 4"
    using inst [THEN conjunct2, THEN conjunct2, THEN conjunct1]
    by (simp add: d initialStats_def)
  have l: "largeChunks (processFile initialStats 3145728) = 2"
    using inst [THEN conjunct2, THEN conjunct2, THEN conjunct2, THEN conjunct1]
    by (simp add: d initialStats_def)
  have sm: "smallChunks (processFile initialStats 3145728) = 2"
    using inst [THEN conjunct2, THEN conjunct2, THEN conjunct2, THEN conjunct2, THEN conjunct1]
    by (simp add: initialStats_def)
  show ?thesis
    by (intro conjI) (fact big m r t l sm)+
qed

section \<open>Invariants of the loop\<close>

lemma reportSizes_snoc: "reportSizes (files @ [f]) = processFile (reportSizes files) f"
  by (simp add: reportSizes_def)

lemma reportSizes_Nil: "reportSizes [] = initialStats"
  by (simp add: reportSizes_def)

subsection \<open>The three chunk counters\<close>

lemma chunksBalanced_processFile:
  "chunksBalanced s \<Longrightarrow> chunksBalanced (processFile s f)"
  by (simp add: chunksBalanced_def totalChunks_processFile largeChunks_processFile
      smallChunks_processFile)

lemma chunksBalanced_initial: "chunksBalanced initialStats"
  by (simp add: chunksBalanced_def initialStats_def)

lemma chunksBalanced_reportSizes: "chunksBalanced (reportSizes files)"
proof (induction files rule: rev_induct)
  case Nil
  show ?case by (simp add: reportSizes_Nil chunksBalanced_initial)
next
  case (snoc f files)
  then show ?case by (simp add: reportSizes_snoc chunksBalanced_processFile)
qed

text \<open>
  Claim C9: the counters start with \<open>totalChunks = largeChunks + smallChunks\<close>, the update
  for a file keeps the equality, and so it holds after the loop over any list of files.
\<close>

theorem chunk_counters_balanced:
  "chunksBalanced initialStats
   \<and> (chunksBalanced s \<longrightarrow> chunksBalanced (processFile s f))
   \<and> totalChunks (reportSizes files) =
       largeChunks (reportSizes files) + smallChunks (reportSizes files)"
proof -
  have "totalChunks (reportSizes files) =
        largeChunks (reportSizes files) + smallChunks (reportSizes files)"
    using chunksBalanced_reportSizes [of files] by (simp add: chunksBalanced_def)
  then show ?thesis
    by (simp add: chunksBalanced_initial chunksBalanced_processFile)
qed

theorem chunk_counters_balanced_witness:
  "chunksBalanced (processFile initialStats 500)
   \<and> chunksBalanced (processFile (processFile initialStats 500) 5000000)
   \<and> totalChunks (reportSizes [500, 5000000, 4096]) =
       largeChunks (reportSizes [500, 5000000, 4096])
       + smallChunks (reportSizes [500, 5000000, 4096])"
proof -
  have a: "chunksBalanced (processFile initialStats 500)"
    using chunk_counters_balanced [of initialStats 500 "[]"] by simp
  have b: "chunksBalanced (processFile (processFile initialStats 500) 5000000)"
    using a chunk_counters_balanced [of "processFile initialStats 500" 5000000 "[]"] by simp
  have c: "totalChunks (reportSizes [500, 5000000, 4096]) =
       largeChunks (reportSizes [500, 5000000, 4096])
       + smallChunks (reportSizes [500, 5000000, 4096])"
    using chunk_counters_balanced [of initialStats 500 "[500, 5000000, 4096]"] by simp
  show ?thesis by (intro conjI) (fact a b c)+
qed

subsection \<open>The two file counters\<close>

lemma gt_reportSizes:
  "gt (reportSizes files) = of_nat (length (filter (\<lambda>f. OneMb <s f) files))"
proof (induction files rule: rev_induct)
  case Nil
  show ?case by (simp add: reportSizes_Nil initialStats_def)
next
  case (snoc f files)
  then show ?case by (simp add: reportSizes_snoc gt_processFile)
qed

lemma lt_reportSizes:
  "lt (reportSizes files) = of_nat (length (filter (\<lambda>f. \<not> OneMb <s f) files))"
proof (induction files rule: rev_induct)
  case Nil
  show ?case by (simp add: reportSizes_Nil initialStats_def)
next
  case (snoc f files)
  then show ?case by (simp add: reportSizes_snoc lt_processFile)
qed

lemma sint_of_nat_small:
  assumes "n < 2 ^ 63"
  shows "sint (of_nat n :: int64) = int n"
proof -
  have "int n < 2 ^ 63" using assms by (metis of_nat_less_iff of_nat_numeral of_nat_power)
  then have "sint (word_of_int (int n) :: int64) = int n"
    by (intro sint_word_of_int_in_range) simp_all
  then show ?thesis by simp
qed

text \<open>
  Claim C10: after the loop \<open>gt\<close> is the number of files larger than 1 MB, \<open>lt\<close> the number
  of the other files, and the two add up to the number of files. (A Go slice has fewer
  than \<open>2^63\<close> elements, so the counters do not wrap.)
\<close>

theorem every_file_in_one_class:
  assumes "length files < 2 ^ 63"
  shows "sint (gt (reportSizes files)) = int (length (filter (\<lambda>f. OneMb <s f) files))
       \<and> sint (lt (reportSizes files)) = int (length (filter (\<lambda>f. \<not> OneMb <s f) files))
       \<and> sint (gt (reportSizes files)) + sint (lt (reportSizes files)) = int (length files)"
proof -
  let ?g = "length (filter (\<lambda>f. OneMb <s f) files)"
  let ?l = "length (filter (\<lambda>f. \<not> OneMb <s f) files)"
  have sum: "?g + ?l = length files" by (rule sum_length_filter_compl)
  then have "?g < 2 ^ 63" and "?l < 2 ^ 63" using assms by linarith+
  then have g: "sint (gt (reportSizes files)) = int ?g"
    and l: "sint (lt (reportSizes files)) = int ?l"
    by (simp_all add: gt_reportSizes lt_reportSizes sint_of_nat_small)
  from sum have "int ?g + int ?l = int (length files)" by linarith
  with g l show ?thesis by simp
qed

theorem every_file_in_one_class_witness:
  "length [500, 5000000, 4096 :: int64] < 2 ^ 63
   \<and> sint (gt (reportSizes [500, 5000000, 4096])) = 1
   \<and> sint (lt (reportSizes [500, 5000000, 4096])) = 2"
proof -
  have h: "length [500, 5000000, 4096 :: int64] < 2 ^ 63" by simp
  show ?thesis
    using h every_file_in_one_class [OF h] by (simp add: OneMb_def)
qed

subsection \<open>The histogram holds every chunk\<close>

lemma bucketCount_credit:
  "bucketCount (credit h k n) key = (if key = k then bucketCount h k + n else bucketCount h key)"
  by (simp add: credit_def bucketCount_def)

lemma bucketCount_outside: "k \<notin> dom h \<Longrightarrow> bucketCount h k = 0"
  by (auto simp: bucketCount_def split: option.split)

lemma histTotal_credit:
  assumes "finite (dom h)"
  shows "histTotal (credit h k n) = histTotal h + n"
proof (cases "k \<in> dom h")
  case True
  then have d: "insert k (dom h) = dom h" by auto
  have "histTotal (credit h k n) = (\<Sum>key \<in> dom h. bucketCount (credit h k n) key)"
    by (simp add: histTotal_def dom_credit d)
  also have "\<dots> = bucketCount (credit h k n) k
      + (\<Sum>key \<in> dom h - {k}. bucketCount (credit h k n) key)"
    using assms True by (rule sum.remove)
  also have "(\<Sum>key \<in> dom h - {k}. bucketCount (credit h k n) key) =
      (\<Sum>key \<in> dom h - {k}. bucketCount h key)"
    by (rule sum.cong) (simp_all add: bucketCount_credit)
  also have "bucketCount (credit h k n) k = bucketCount h k + n"
    by (simp add: bucketCount_credit)
  finally have "histTotal (credit h k n) =
      (bucketCount h k + (\<Sum>key \<in> dom h - {k}. bucketCount h key)) + n"
    by (simp add: ac_simps)
  moreover have "histTotal h = bucketCount h k + (\<Sum>key \<in> dom h - {k}. bucketCount h key)"
    unfolding histTotal_def using assms True by (rule sum.remove)
  ultimately show ?thesis by simp
next
  case False
  have "histTotal (credit h k n) =
      bucketCount (credit h k n) k + (\<Sum>key \<in> dom h. bucketCount (credit h k n) key)"
    using assms False by (simp add: histTotal_def dom_credit)
  also have "(\<Sum>key \<in> dom h. bucketCount (credit h k n) key) =
      (\<Sum>key \<in> dom h. bucketCount h key)"
    using False by (intro sum.cong) (auto simp: bucketCount_credit)
  finally show ?thesis
    using False by (simp add: bucketCount_credit bucketCount_outside histTotal_def)
qed

lemma foldl_addEntry_total:
  "finite (dom h) \<Longrightarrow>
     finite (dom (fst (foldl addEntry (h, p) es)))
     \<and> histTotal (fst (foldl addEntry (h, p) es)) = histTotal h + sum_list (map snd es)"
proof (induction es arbitrary: h p)
  case Nil
  then show ?case by simp
next
  case (Cons e es)
  obtain kb c where e: "e = (kb, c)" by (cases e)
  let ?h = "credit h (histKey kb) c"
  let ?p = "if histKey kb \<in> dom h then p else p @ [histKey kb]"
  have f: "finite (dom ?h)" using Cons.prems by (simp add: dom_credit)
  have "foldl addEntry (h, p) (e # es) = foldl addEntry (?h, ?p) es"
    by (simp add: e addEntry_eq)
  then show ?case
    using Cons.IH [OF f, of ?p] Cons.prems
    by (simp add: e histTotal_credit ac_simps)
qed

lemma recorded_counts:
  "sum_list (map snd (recorded f)) =
     (if OneMb <s f then fileChunksOf f + 1 else if f <s 3 * OneKb then 1 else 4)"
  by (simp add: recorded_def)

lemma histogramComplete_processFile:
  assumes "histogramComplete s"
  shows "histogramComplete (processFile s f)"
proof -
  have f: "finite (dom (histogram s))" using assms by (simp add: histogramComplete_def)
  note t = foldl_addEntry_total [OF f, of "missingKeys s" "recorded f"]
  show ?thesis
    using assms t
    by (simp add: histogramComplete_def histogram_processFile totalChunks_processFile
        recorded_counts)
qed

lemma dom_initialHistogram: "dom initialHistogram = predefinedKeys"
  by (auto simp: initialHistogram_def predefinedKeys_def)

lemma histTotal_initialHistogram: "histTotal initialHistogram = 0"
proof -
  have "bucketCount initialHistogram key = 0" for key
    by (simp add: bucketCount_def initialHistogram_def)
  then show ?thesis by (simp add: histTotal_def)
qed

lemma histogramComplete_initial: "histogramComplete initialStats"
  by (simp add: histogramComplete_def initialStats_def dom_initialHistogram
      predefinedKeys_def histTotal_initialHistogram)

lemma histogramComplete_reportSizes: "histogramComplete (reportSizes files)"
proof (induction files rule: rev_induct)
  case Nil
  show ?case by (simp add: reportSizes_Nil histogramComplete_initial)
next
  case (snoc f files)
  then show ?case by (simp add: reportSizes_snoc histogramComplete_processFile)
qed

text \<open>
  Claim C5: after the loop over any list of files the histogram has finitely many buckets
  and the sum of their counts is \<open>totalChunks\<close>.
\<close>

theorem histogram_sums_to_totalChunks:
  "finite (dom (histogram (reportSizes files)))
   \<and> histTotal (histogram (reportSizes files)) = totalChunks (reportSizes files)"
  using histogramComplete_reportSizes [of files] by (simp add: histogramComplete_def)

subsection \<open>The buckets that the files reach\<close>









section \<open>Merging partial results\<close>

lemma sum_list_split:
  fixes g :: "'a \<Rightarrow> 'b::comm_monoid_add"
  assumes "mset zs = mset xs + mset ys"
  shows "sum_list (map g zs) = sum_list (map g xs) + sum_list (map g ys)"
proof -
  have "sum_mset (image_mset g (mset zs)) = sum_mset (image_mset g (mset xs + mset ys))"
    by (simp add: assms)
  then show ?thesis by (simp add: sum_mset_sum_list flip: mset_map)
qed

lemma set_split:
  assumes "mset zs = mset xs + mset ys"
  shows "set zs = set xs \<union> set ys"
proof -
  have "set_mset (mset zs) = set_mset (mset xs + mset ys)" by (simp add: assms)
  then show ?thesis by simp
qed

subsection \<open>The counters are sums over the files\<close>

lemma gt_sum:
  "gt (reportSizes files) = sum_list (map (\<lambda>f. if OneMb <s f then 1 else 0) files)"
  by (induction files rule: rev_induct)
    (simp_all add: reportSizes_Nil reportSizes_snoc initialStats_def gt_processFile)

lemma lt_sum:
  "lt (reportSizes files) = sum_list (map (\<lambda>f. if OneMb <s f then 0 else 1) files)"
  by (induction files rule: rev_induct)
    (simp_all add: reportSizes_Nil reportSizes_snoc initialStats_def lt_processFile)

lemma totalChunks_sum:
  "totalChunks (reportSizes files) =
     sum_list (map (\<lambda>f. if OneMb <s f then fileChunksOf f + 1
                          else if f <s 3 * OneKb then 1 else 4) files)"
  by (induction files rule: rev_induct)
    (simp_all add: reportSizes_Nil reportSizes_snoc initialStats_def totalChunks_processFile)

lemma largeChunks_sum:
  "largeChunks (reportSizes files) =
     sum_list (map (\<lambda>f. if OneMb <s f then fileChunksOf f - 1 else 0) files)"
  by (induction files rule: rev_induct)
    (simp_all add: reportSizes_Nil reportSizes_snoc initialStats_def largeChunks_processFile)

lemma smallChunks_sum:
  "smallChunks (reportSizes files) =
     sum_list (map (\<lambda>f. if OneMb <s f then 2 else if f <s 3 * OneKb then 1 else 4) files)"
  by (induction files rule: rev_induct)
    (simp_all add: reportSizes_Nil reportSizes_snoc initialStats_def smallChunks_processFile)

lemma counters_merge:
  assumes "mset files = mset xs + mset ys"
  shows "gt (reportSizes files) = gt (mergeStats (reportSizes xs) (reportSizes ys))"
    and "lt (reportSizes files) = lt (mergeStats (reportSizes xs) (reportSizes ys))"
    and "totalChunks (reportSizes files) =
           totalChunks (mergeStats (reportSizes xs) (reportSizes ys))"
    and "largeChunks (reportSizes files) =
           largeChunks (mergeStats (reportSizes xs) (reportSizes ys))"
    and "smallChunks (reportSizes files) =
           smallChunks (mergeStats (reportSizes xs) (reportSizes ys))"
  by (simp_all add: mergeStats_def gt_sum lt_sum totalChunks_sum largeChunks_sum
      smallChunks_sum sum_list_split [OF assms])

subsection \<open>The histogram is a sum over the files\<close>

lemma foldl_addEntry_lookup:
  "fst (foldl addEntry (h, p) es) key =
     (if key \<in> dom h \<or> key \<in> (\<lambda>e. histKey (fst e)) ` set es
      then Some (bucketCount h key
                 + sum_list (map (\<lambda>e. if histKey (fst e) = key then snd e else 0) es))
      else None)"
proof (induction es arbitrary: h p)
  case Nil
  show ?case by (auto simp: bucketCount_def split: option.split)
next
  case (Cons e es)
  obtain kb c where e: "e = (kb, c)" by (cases e)
  let ?h = "credit h (histKey kb) c"
  let ?p = "if histKey kb \<in> dom h then p else p @ [histKey kb]"
  have step: "foldl addEntry (h, p) (e # es) = foldl addEntry (?h, ?p) es"
    by (simp add: e addEntry_eq)
  show ?case
    unfolding step Cons.IH [of ?h ?p]
    by (auto simp: e dom_credit bucketCount_credit ac_simps)
qed

lemma sum_list_all_zero:
  fixes g :: "'a \<Rightarrow> 'b::comm_monoid_add"
  shows "(\<forall>x \<in> set xs. g x = 0) \<Longrightarrow> sum_list (map g xs) = 0"
  by (induction xs) simp_all

lemma bucketCount_initial: "bucketCount initialHistogram key = 0"
  by (simp add: bucketCount_def initialHistogram_def)

lemma histogram_lookup:
  "histogram (reportSizes files) key =
     (if key \<in> predefinedKeys \<or> (\<exists>f \<in> set files. key \<in> (\<lambda>e. histKey (fst e)) ` set (recorded f))
      then Some (sum_list (map (\<lambda>f. sum_list (map (\<lambda>e. if histKey (fst e) = key then snd e else 0)
                                                  (recorded f))) files))
      else None)"
proof (induction files rule: rev_induct)
  case Nil
  have "initialHistogram key = (if key \<in> predefinedKeys then Some 0 else None)"
    using bucketCount_initial [of key] dom_initialHistogram
    by (auto simp: bucketCount_def split: option.splits)
  then show ?case by (simp add: reportSizes_Nil initialStats_def)
next
  case (snoc f files)
  let ?s = "reportSizes files"
  let ?old = "sum_list (map (\<lambda>f. sum_list (map (\<lambda>e. if histKey (fst e) = key then snd e else 0)
                                                  (recorded f))) files)"
  have dom_old: "key \<in> dom (histogram ?s) \<longleftrightarrow>
      key \<in> predefinedKeys \<or> (\<exists>f \<in> set files. key \<in> (\<lambda>e. histKey (fst e)) ` set (recorded f))"
    using snoc.IH by (auto simp: dom_def split: if_splits)
  have count_old: "bucketCount (histogram ?s) key = ?old"
  proof (cases "key \<in> dom (histogram ?s)")
    case True
    then show ?thesis using snoc.IH dom_old by (simp add: bucketCount_def)
  next
    case False
    then have none: "\<forall>f \<in> set files. \<forall>e \<in> set (recorded f). histKey (fst e) \<noteq> key"
      using dom_old by auto
    have "?old = 0"
    proof (rule sum_list_all_zero, rule ballI)
      fix f assume "f \<in> set files"
      then have "\<forall>e \<in> set (recorded f). (if histKey (fst e) = key then snd e else 0) = 0"
        using none by auto
      then show "sum_list (map (\<lambda>e. if histKey (fst e) = key then snd e else 0) (recorded f)) = 0"
        by (rule sum_list_all_zero)
    qed
    then show ?thesis using False by (simp add: bucketCount_outside)
  qed
  show ?case
    unfolding reportSizes_snoc histogram_processFile foldl_addEntry_lookup
    by (simp add: dom_old count_old)
qed

lemma histogram_merge:
  assumes "mset files = mset xs + mset ys"
  shows "histogram (reportSizes files) =
           mergeHist (histogram (reportSizes xs)) (histogram (reportSizes ys))"
proof (rule ext)
  fix key
  let ?g = "\<lambda>f. sum_list (map (\<lambda>e. if histKey (fst e) = key then snd e else 0) (recorded f))"
  let ?T = "\<lambda>fs. key \<in> predefinedKeys
              \<or> (\<exists>f \<in> set fs. key \<in> (\<lambda>e. histKey (fst e)) ` set (recorded f))"
  have sum: "sum_list (map ?g files) = sum_list (map ?g xs) + sum_list (map ?g ys)"
    using assms by (rule sum_list_split)
  have T: "?T files \<longleftrightarrow> ?T xs \<or> ?T ys"
    using set_split [OF assms] by auto
  have zero: "sum_list (map ?g fs) = 0" if "\<not> ?T fs" for fs
  proof (rule sum_list_all_zero, rule ballI)
    fix f assume "f \<in> set fs"
    then have "\<forall>e \<in> set (recorded f). (if histKey (fst e) = key then snd e else 0) = 0"
      using that by auto
    then show "?g f = 0" by (rule sum_list_all_zero)
  qed
  have L: "histogram (reportSizes fs) key =
      (if ?T fs then Some (sum_list (map ?g fs)) else None)" for fs
    by (rule histogram_lookup)
  show "histogram (reportSizes files) key =
          mergeHist (histogram (reportSizes xs)) (histogram (reportSizes ys)) key"
  proof (cases "?T xs")
    case tx: True
    show ?thesis
    proof (cases "?T ys")
      case True
      with tx T show ?thesis by (simp add: L mergeHist_def sum)
    next
      case False
      with tx T zero [of ys] show ?thesis by (simp add: L mergeHist_def sum)
    qed
  next
    case fx: False
    show ?thesis
    proof (cases "?T ys")
      case True
      with fx T zero [of xs] show ?thesis by (simp add: L mergeHist_def sum)
    next
      case False
      with fx T show ?thesis by (simp add: L mergeHist_def)
    qed
  qed
qed

subsection \<open>The gigabyte sums while they are exact\<close>

lemma f64_add_exact:
  assumes "0 \<le> x" "0 \<le> y" "x + y \<le> 2 ^ 53"
  shows "f64_add x y = x + y" and "f64_add x (f64_round y) = x + y"
proof -
  have "\<bar>x + y\<bar> \<le> 2 ^ 53" and "\<bar>y\<bar> \<le> 2 ^ 53" using assms by simp_all
  then show "f64_add x y = x + y" and "f64_add x (f64_round y) = x + y"
    by (simp_all add: f64_add_def f64_round_exact)
qed

lemma class_bytes_bounds:
  "\<forall>f \<in> set fs. 0 \<le> sint f \<Longrightarrow>
     0 \<le> sum_list (map (\<lambda>f. if P f then sint f else 0) fs)
     \<and> sum_list (map (\<lambda>f. if P f then sint f else 0) fs) \<le> sum_list (map sint fs)"
  by (induction fs) auto

lemma total_bytes_nonneg: "\<forall>f \<in> set fs. 0 \<le> sint f \<Longrightarrow> 0 \<le> sum_list (map sint fs)"
  by (induction fs) auto

lemma gigabytes_exact:
  assumes "\<forall>f \<in> set files. 0 \<le> sint f" "sum_list (map sint files) \<le> 2 ^ 53"
  shows "largeGigabytes (reportSizes files) =
           sum_list (map (\<lambda>f. if OneMb <s f then sint f else 0) files)
       \<and> smallGigabytes (reportSizes files) =
           sum_list (map (\<lambda>f. if \<not> OneMb <s f then sint f else 0) files)"
  using assms
proof (induction files rule: rev_induct)
  case Nil
  show ?case by (simp add: reportSizes_Nil initialStats_def)
next
  case (snoc f files)
  have pos: "\<forall>f \<in> set files. 0 \<le> sint f" and f: "0 \<le> sint f"
    using snoc.prems(1) by simp_all
  have tot: "sum_list (map sint files) + sint f \<le> 2 ^ 53" using snoc.prems(2) by simp
  then have "sum_list (map sint files) \<le> 2 ^ 53" using f by linarith
  with snoc.IH pos have
    lg: "largeGigabytes (reportSizes files) =
           sum_list (map (\<lambda>f. if OneMb <s f then sint f else 0) files)" and
    sg: "smallGigabytes (reportSizes files) =
           sum_list (map (\<lambda>f. if \<not> OneMb <s f then sint f else 0) files)"
    by simp_all
  note bl = class_bytes_bounds [OF pos, of "\<lambda>f. OneMb <s f"]
  note bs = class_bytes_bounds [OF pos, of "\<lambda>f. \<not> OneMb <s f"]
  have l: "f64_add (largeGigabytes (reportSizes files)) (f64_round (sint f)) =
      largeGigabytes (reportSizes files) + sint f"
    using bl f tot by (intro f64_add_exact) (simp_all add: lg)
  have s: "f64_add (smallGigabytes (reportSizes files)) (f64_round (sint f)) =
      smallGigabytes (reportSizes files) + sint f"
    using bs f tot by (intro f64_add_exact) (simp_all add: sg)
  show ?case
    by (simp add: reportSizes_snoc largeGigabytes_processFile smallGigabytes_processFile l s)
      (simp add: lg sg)
qed

lemma gigabytes_merge:
  assumes "mset files = mset xs + mset ys"
    and "\<forall>f \<in> set files. 0 \<le>s f" "sum_list (map sint files) \<le> 2 ^ 53"
  shows "largeGigabytes (reportSizes files) =
           largeGigabytes (mergeStats (reportSizes xs) (reportSizes ys))"
    and "smallGigabytes (reportSizes files) =
           smallGigabytes (mergeStats (reportSizes xs) (reportSizes ys))"
proof -
  have pos: "\<forall>f \<in> set files. 0 \<le> sint f" using assms(2) by (simp add: sle_iff)
  then have px: "\<forall>f \<in> set xs. 0 \<le> sint f" and py: "\<forall>f \<in> set ys. 0 \<le> sint f"
    using set_split [OF assms(1)] by simp_all
  have tot: "sum_list (map sint files) = sum_list (map sint xs) + sum_list (map sint ys)"
    using assms(1) by (rule sum_list_split)
  have tx: "sum_list (map sint xs) \<le> 2 ^ 53" and ty: "sum_list (map sint ys) \<le> 2 ^ 53"
    using tot assms(3) total_bytes_nonneg [OF px] total_bytes_nonneg [OF py] by linarith+
  note gf = gigabytes_exact [OF pos assms(3)]
  note gx = gigabytes_exact [OF px tx]
  note gy = gigabytes_exact [OF py ty]
  note bx = class_bytes_bounds [OF px]
  note by' = class_bytes_bounds [OF py]
  let ?L = "\<lambda>fs. sum_list (map (\<lambda>f. if OneMb <s f then sint f else 0) fs)"
  let ?S = "\<lambda>fs. sum_list (map (\<lambda>f. if \<not> OneMb <s f then sint f else 0) fs)"
  have "?L xs + ?L ys \<le> 2 ^ 53"
    using bx [of "\<lambda>f. OneMb <s f"] by' [of "\<lambda>f. OneMb <s f"] tot assms(3) by linarith
  then have "f64_add (?L xs) (?L ys) = ?L xs + ?L ys"
    using bx [of "\<lambda>f. OneMb <s f"] by' [of "\<lambda>f. OneMb <s f"] by (intro f64_add_exact) simp_all
  moreover have "?L files = ?L xs + ?L ys" using assms(1) by (rule sum_list_split)
  ultimately show "largeGigabytes (reportSizes files) =
           largeGigabytes (mergeStats (reportSizes xs) (reportSizes ys))"
    using gf gx gy by (simp add: mergeStats_def)
  have "?S xs + ?S ys \<le> 2 ^ 53"
    using bx [of "\<lambda>f. \<not> OneMb <s f"] by' [of "\<lambda>f. \<not> OneMb <s f"] tot assms(3) by linarith
  then have "f64_add (?S xs) (?S ys) = ?S xs + ?S ys"
    using bx [of "\<lambda>f. \<not> OneMb <s f"] by' [of "\<lambda>f. \<not> OneMb <s f"]
    by (intro f64_add_exact) simp_all
  moreover have "?S files = ?S xs + ?S ys" using assms(1) by (rule sum_list_split)
  ultimately show "smallGigabytes (reportSizes files) =
           smallGigabytes (mergeStats (reportSizes xs) (reportSizes ys))"
    using gf gx gy by (simp add: mergeStats_def)
qed

text \<open>
  Claim C7, as the code has it: split the list of files into two lists in any way (and
  in any order), run the loop on each and merge. The int64 counters and the histogram of
  the merge are those of one pass over the whole list, always. The two float64 gigabyte
  sums are those of one pass as long as every sum is exact, which is the case when the
  sizes are non-negative and add up to at most \<open>2^53\<close> bytes.
\<close>

theorem merge_of_partial_results:
  assumes "mset files = mset xs + mset ys"
  shows "gt (reportSizes files) = gt (mergeStats (reportSizes xs) (reportSizes ys))
       \<and> lt (reportSizes files) = lt (mergeStats (reportSizes xs) (reportSizes ys))
       \<and> totalChunks (reportSizes files) =
           totalChunks (mergeStats (reportSizes xs) (reportSizes ys))
       \<and> largeChunks (reportSizes files) =
           largeChunks (mergeStats (reportSizes xs) (reportSizes ys))
       \<and> smallChunks (reportSizes files) =
           smallChunks (mergeStats (reportSizes xs) (reportSizes ys))
       \<and> histogram (reportSizes files) =
           histogram (mergeStats (reportSizes xs) (reportSizes ys))
       \<and> ((\<forall>f \<in> set files. 0 \<le>s f) \<and> sum_list (map sint files) \<le> 2 ^ 53 \<longrightarrow>
            largeGigabytes (reportSizes files) =
              largeGigabytes (mergeStats (reportSizes xs) (reportSizes ys))
            \<and> smallGigabytes (reportSizes files) =
              smallGigabytes (mergeStats (reportSizes xs) (reportSizes ys)))"
proof -
  have h: "histogram (reportSizes files) =
           histogram (mergeStats (reportSizes xs) (reportSizes ys))"
    using histogram_merge [OF assms] by (simp add: mergeStats_def)
  have g: "(\<forall>f \<in> set files. 0 \<le>s f) \<and> sum_list (map sint files) \<le> 2 ^ 53 \<longrightarrow>
            largeGigabytes (reportSizes files) =
              largeGigabytes (mergeStats (reportSizes xs) (reportSizes ys))
            \<and> smallGigabytes (reportSizes files) =
              smallGigabytes (mergeStats (reportSizes xs) (reportSizes ys))"
    using gigabytes_merge [OF assms] by blast
  show ?thesis
    by (intro conjI) (fact counters_merge [OF assms] h g)+
qed

theorem merge_of_partial_results_witness:
  "mset [500, 5000000, 4096 :: int64] = mset [4096] + mset [5000000, 500]
   \<and> 0 \<le>s (500::int64) \<and> 0 \<le>s (5000000::int64) \<and> 0 \<le>s (4096::int64)
   \<and> sum_list (map sint [500, 5000000, 4096 :: int64]) \<le> 2 ^ 53
   \<and> totalChunks (reportSizes [500, 5000000, 4096]) =
       totalChunks (mergeStats (reportSizes [4096]) (reportSizes [5000000, 500]))
   \<and> histogram (reportSizes [500, 5000000, 4096]) =
       histogram (mergeStats (reportSizes [4096]) (reportSizes [5000000, 500]))
   \<and> largeGigabytes (reportSizes [500, 5000000, 4096]) =
       largeGigabytes (mergeStats (reportSizes [4096]) (reportSizes [5000000, 500]))
   \<and> smallGigabytes (reportSizes [500, 5000000, 4096]) =
       smallGigabytes (mergeStats (reportSizes [4096]) (reportSizes [5000000, 500]))"
proof -
  have m: "mset [500, 5000000, 4096 :: int64] = mset [4096] + mset [5000000, 500]"
    by (simp add: ac_simps)
  have a: "0 \<le>s (500::int64)" and b: "0 \<le>s (5000000::int64)" and c: "0 \<le>s (4096::int64)"
    by (simp_all add: sle_iff)
  have s: "sum_list (map sint [500, 5000000, 4096 :: int64]) \<le> 2 ^ 53" by simp
  have p: "(\<forall>f \<in> set [500, 5000000, 4096 :: int64]. 0 \<le>s f)
      \<and> sum_list (map sint [500, 5000000, 4096 :: int64]) \<le> 2 ^ 53"
    using a b c s by simp
  note t = merge_of_partial_results [OF m]
  note t6 = t [THEN conjunct2, THEN conjunct2, THEN conjunct2, THEN conjunct2, THEN conjunct2]
  note g = t6 [THEN conjunct2, THEN mp, OF p]
  show ?thesis
    by (intro conjI) (fact m a b c s t [THEN conjunct2, THEN conjunct2, THEN conjunct1]
      t6 [THEN conjunct1] g [THEN conjunct1] g [THEN conjunct2])+
qed

lemma f64_round_2p53_2p20_1: "f64_round 9007199255789569 = 9007199255789568"
proof -
  have "round53 9007199255789569 = 9007199255789568"
    by (subst round53_54_bits) simp_all
  then show ?thesis by (simp add: f64_round_def)
qed

lemma f64_round_2p53_2p21_1: "f64_round 9007199256838145 = 9007199256838144"
proof -
  have "round53 9007199256838145 = 9007199256838144"
    by (subst round53_54_bits) simp_all
  then show ?thesis by (simp add: f64_round_def)
qed

lemma f64_round_2p53_2p21_2: "f64_round 9007199256838146 = 9007199256838146"
proof -
  have "round53 9007199256838146 = 9007199256838146"
    by (subst round53_54_bits) simp_all
  then show ?thesis by (simp add: f64_round_def)
qed

lemma largeGigabytes_one_pass:
  "largeGigabytes (reportSizes [9007199254740992, 1048577, 1048577]) = 9007199256838144"
proof -
  have e1: "f64_round 9007199254740992 = 9007199254740992"
    and e2: "f64_round 1048577 = 1048577"
    by (simp_all add: f64_round_exact)
  show ?thesis
    by (simp add: reportSizes_def largeGigabytes_processFile OneMb_def initialStats_def
        f64_add_def e1 e2 f64_round_2p53_2p20_1 f64_round_2p53_2p21_1)
qed

lemma largeGigabytes_two_parts:
  "largeGigabytes (mergeStats (reportSizes [9007199254740992]) (reportSizes [1048577, 1048577]))
     = 9007199256838146"
proof -
  have e1: "f64_round 9007199254740992 = 9007199254740992"
    and e2: "f64_round 1048577 = 1048577"
    and e3: "f64_round 2097154 = 2097154"
    by (simp_all add: f64_round_exact)
  show ?thesis
    by (simp add: mergeStats_def reportSizes_def largeGigabytes_processFile OneMb_def
        initialStats_def f64_add_def e1 e2 e3 f64_round_2p53_2p21_2)
qed

text \<open>
  Claim C7 as stated fails for the gigabyte sum of the large files: for one file of
  \<open>2^53\<close> bytes and two files of \<open>2^20 + 1\<close> bytes, one pass over the three files rounds
  twice and gives \<open>2^53 + 2^21\<close> (in units of \<open>2^-30\<close> GB), while merging the result for
  the first file with the result for the other two gives \<open>2^53 + 2^21 + 2\<close>.
\<close>

theorem merge_gigabytes_counterexample:
  "mset [9007199254740992, 1048577, 1048577 :: int64] =
     mset [9007199254740992] + mset [1048577, 1048577]
   \<and> largeGigabytes (reportSizes [9007199254740992, 1048577, 1048577]) = 9007199256838144
   \<and> largeGigabytes (mergeStats (reportSizes [9007199254740992])
        (reportSizes [1048577, 1048577])) = 9007199256838146
   \<and> largeGigabytes (reportSizes [9007199254740992, 1048577, 1048577]) \<noteq>
       largeGigabytes (mergeStats (reportSizes [9007199254740992])
        (reportSizes [1048577, 1048577]))"
proof -
  have m: "mset [9007199254740992, 1048577, 1048577 :: int64] =
     mset [9007199254740992] + mset [1048577, 1048577]" by simp
  have n: "largeGigabytes (reportSizes [9007199254740992, 1048577, 1048577]) \<noteq>
       largeGigabytes (mergeStats (reportSizes [9007199254740992])
        (reportSizes [1048577, 1048577]))"
    unfolding largeGigabytes_one_pass largeGigabytes_two_parts by simp
  show ?thesis
    by (intro conjI) (fact m largeGigabytes_one_pass largeGigabytes_two_parts n)+
qed

section \<open>main\<close>

lemma walkDir_example:
  "walkDir (Dir [File 500, Dir [File 4096, Unreadable, Dir []], File 5000000]) =
     [500, 4096, 5000000]"
  by simp

lemma readDirCalls_example:
  "readDirCalls (Dir [File 500, Dir [File 4096, Unreadable, Dir []], File 5000000]) = 4"
  by simp

lemma readDirCalls_pos: "0 < readDirCalls d"
  by (cases d) simp_all

text \<open>
  Claim C8, as the code has it: when \<open>user.Current()\<close> fails, \<open>main\<close> prints the banner
  and the error and returns; no directory is read and no report is printed. Otherwise it
  prints the banner, the notice and the report for the files that \<open>walkDir\<close> finds under
  the home directory. On both paths \<open>main\<close> returns, so the exit status is 0 on both.
\<close>

theorem main_outcomes:
  "stdout (main (Inl err)) = [Text ''chunk_distribution v0.1.0'', ErrorText err]
   \<and> \<not> printsReport (main (Inl err))
   \<and> dirsRead (main (Inl err)) = 0
   \<and> exitStatus (main (Inl err)) = 0
   \<and> stdout (main (Inr home)) =
       [Text ''chunk_distribution v0.1.0'', Text ''Gathering current user HomeDir stats'',
        Report (length (walkDir home)) (reportSizes (walkDir home))]
   \<and> printsReport (main (Inr home))
   \<and> 0 < dirsRead (main (Inr home))
   \<and> exitStatus (main (Inr home)) = 0"
  by (simp add: main_def printsReport_def Let_def readDirCalls_pos)

text \<open>
  Claim C8 as stated (a non-zero outcome when the user cannot be resolved) fails: the
  exit status is 0 then as well.
\<close>

theorem main_error_status_counterexample:
  "\<not> exitStatus (main (Inl ''user: Current not implemented'')) \<noteq> 0"
  by (simp add: main_def)

end
